theory Spec2Isabelle
  imports Main
begin

section \<open>Values, classes and exceptions of the Python runtime\<close>

text \<open>
  The program is \<^verbatim>\<open>ConfigManager.py\<close>. The values it handles are the ones
  \<^verbatim>\<open>json.load\<close> builds: \<^verbatim>\<open>None\<close>, \<^verbatim>\<open>bool\<close>, \<^verbatim>\<open>int\<close>, \<^verbatim>\<open>float\<close>,
  \<^verbatim>\<open>str\<close>, \<^verbatim>\<open>list\<close> and \<^verbatim>\<open>dict\<close>. A \<^verbatim>\<open>dict\<close> is the list of its items in insertion
  order (keys pairwise distinct), read with \<open>map_of\<close>. The program never computes with a
  \<^verbatim>\<open>float\<close>, so a float carries the number literal it was read from.
\<close>

datatype json =
    JNull
  | JBool bool
  | JInt int
  | JFloat string
  | JStr string
  | JArr "json list"
  | JObj "(string \<times> json) list"

datatype pytype = NoneType | PyBool | PyInt | PyFloat | PyStr | PyList | PyDict

fun type_of :: "json \<Rightarrow> pytype" where
  "type_of JNull = NoneType"
| "type_of (JBool b) = PyBool"
| "type_of (JInt n) = PyInt"
| "type_of (JFloat f) = PyFloat"
| "type_of (JStr s) = PyStr"
| "type_of (JArr xs) = PyList"
| "type_of (JObj kvs) = PyDict"

text \<open>
  \<^verbatim>\<open>isinstance(v, t)\<close> asks whether the class of \<open>v\<close> is \<open>t\<close> or a subclass of it.
  Among the seven classes the only proper subclass relation is \<^verbatim>\<open>bool\<close> below \<^verbatim>\<open>int\<close>.
\<close>

definition issubclass :: "pytype \<Rightarrow> pytype \<Rightarrow> bool" where
  "issubclass c t \<longleftrightarrow> c = t \<or> (c = PyBool \<and> t = PyInt)"

definition isinstance :: "json \<Rightarrow> pytype \<Rightarrow> bool" where
  "isinstance v t \<longleftrightarrow> issubclass (type_of v) t"

text \<open>What an f-string prints for a class: \<^verbatim>\<open><class 'int'>\<close>.\<close>

fun class_name :: "pytype \<Rightarrow> string" where
  "class_name NoneType = ''NoneType''"
| "class_name PyBool = ''bool''"
| "class_name PyInt = ''int''"
| "class_name PyFloat = ''float''"
| "class_name PyStr = ''str''"
| "class_name PyList = ''list''"
| "class_name PyDict = ''dict''"

definition class_str :: "pytype \<Rightarrow> string" where
  "class_str t = ''<class '' @ [CHR 0x27] @ class_name t @ [CHR 0x27] @ ''>''"

text \<open>
  The exceptions that can leave the program. \<open>ConfigError\<close> is the one class the module
  defines (with its message); the others are raised by the runtime and the standard
  library: \<open>TypeError\<close> by \<^verbatim>\<open>in\<close> and by subscription on a value that does not
  support them, \<open>KeyError\<close> by a dictionary read, \<open>JSONDecodeError\<close> by
  \<^verbatim>\<open>json.load\<close> (with the decoder's message), \<open>IsADirectoryError\<close> by \<^verbatim>\<open>open\<close>.
  The text of a \<open>TypeError\<close> differs between interpreter versions; what it says is
  kept: the operation that raised it and the class of the operand.
\<close>

datatype operation = Membership | Subscription

datatype exn =
    ConfigError string
  | TypeError operation pytype
  | KeyError string
  | JSONDecodeError string
  | IsADirectoryError string

text \<open>\<^verbatim>\<open>except ConfigError\<close> catches exactly the instances of \<open>ConfigError\<close>.\<close>

fun is_ConfigError :: "exn \<Rightarrow> bool" where
  "is_ConfigError (ConfigError m) = True"
| "is_ConfigError _ = False"

text \<open>
  The module raises \<open>ConfigError\<close> at three places, each with its own message. These
  are the error kinds of the specification's taxonomy.
\<close>

definition MissingKeyError :: "string \<Rightarrow> exn" where
  "MissingKeyError key = ConfigError (''Missing key in configuration: '' @ key)"

definition TypeMismatchError :: "string \<Rightarrow> pytype \<Rightarrow> pytype \<Rightarrow> exn" where
  "TypeMismatchError key expected_type actual =
     ConfigError (''Incorrect type for '' @ key @ '': expected '' @ class_str expected_type
                  @ '', got '' @ class_str actual)"

definition FileNotFoundConfigError :: "string \<Rightarrow> exn" where
  "FileNotFoundConfigError file_path = ConfigError (''Configuration file not found: '' @ file_path)"

section \<open>The operators the validator applies to the loaded value\<close>

fun is_substr :: "string \<Rightarrow> string \<Rightarrow> bool" where
  "is_substr k [] = (k = [])"
| "is_substr k (c # cs) = (take (length k) (c # cs) = k \<or> is_substr k cs)"

text \<open>
  \<^verbatim>\<open>key in config\<close> with a string \<open>key\<close>: key membership on a dict, element
  membership on a list (a string equals only an equal string), substring test on a
  string, \<open>TypeError\<close> on \<^verbatim>\<open>None\<close>, booleans and numbers.
\<close>

fun py_in :: "string \<Rightarrow> json \<Rightarrow> exn + bool" where
  "py_in key (JObj kvs) = Inr (key \<in> fst ` set kvs)"
| "py_in key (JArr xs) = Inr (JStr key \<in> set xs)"
| "py_in key (JStr s) = Inr (is_substr key s)"
| "py_in key v = Inl (TypeError Membership (type_of v))"

text \<open>
  \<^verbatim>\<open>config[key]\<close> with a string \<open>key\<close>: the bound value on a dict (\<open>KeyError\<close> when
  there is none), \<open>TypeError\<close> on everything else (a list or a string takes integer
  indices, the rest is not subscriptable).
\<close>

fun py_getitem :: "json \<Rightarrow> string \<Rightarrow> exn + json" where
  "py_getitem (JObj kvs) key =
     (case map_of kvs key of None \<Rightarrow> Inl (KeyError key) | Some v \<Rightarrow> Inr v)"
| "py_getitem v key = Inl (TypeError Subscription (type_of v))"

section \<open>Program state\<close>

text \<open>
  An object is a value with its identity. The program never mutates an object, so the
  value travels with the identity instead of living in a store; \<^verbatim>\<open>a is b\<close> is equality
  of identities.
\<close>

record pyobj =
  obj_id :: nat
  obj_val :: json

text \<open>
  The file system maps a path to what is there. The text of a regular file is
  represented by what \<^verbatim>\<open>json.load\<close> does on it: it raises \<open>JSONDecodeError\<close>
  (with a message), or it returns a value.
\<close>

datatype contents = Not_JSON string | JSON_text json

datatype node = Directory | Regular_file contents

type_synonym schema = "(string \<times> pytype) list"

text \<open>
  What the program does to the outside, in order: the file-system calls and the
  \<^verbatim>\<open>logging.info\<close> records (a record is kept as its template and arguments).
\<close>

datatype log_msg =
    Loaded_from string
  | Validated_against schema

datatype event =
    Os_path_exists string
  | Open_read string
  | Logging_info log_msg

text \<open>
  \<open>cache\<close> is the cache that \<^verbatim>\<open>@lru_cache(maxsize=5)\<close> creates when the class body
  is executed: one ordered table for the function \<^verbatim>\<open>ConfigLoader.load\<close>, keyed by the
  call's arguments \<^verbatim>\<open>(self, config_name)\<close>, least recently used entry first.
  \<open>next_id\<close> is the next unused object identity.
\<close>

record state =
  files :: "string \<rightharpoonup> node"
  cache :: "((nat \<times> string) \<times> pyobj) list"
  next_id :: nat
  trace :: "event list"

type_synonym 'a result = "(exn + 'a) \<times> state"

definition emit :: "event \<Rightarrow> state \<Rightarrow> state" where
  "emit e s = s\<lparr>trace := trace s @ [e]\<rparr>"

section \<open>validate_config\<close>

text \<open>
  The \<^verbatim>\<open>for key, expected_type in schema.items()\<close> loop of \<^verbatim>\<open>wrapper\<close>:
  \<open>Some e\<close> when an iteration raises \<open>e\<close>, \<open>None\<close> when the loop runs to its end.
\<close>

fun validate_loop :: "schema \<Rightarrow> json \<Rightarrow> exn option" where
  "validate_loop [] config = None"
| "validate_loop ((key, expected_type) # rest) config =
     (case py_in key config of
        Inl e \<Rightarrow> Some e
      | Inr False \<Rightarrow> Some (MissingKeyError key)
      | Inr True \<Rightarrow>
          (case py_getitem config key of
             Inl e \<Rightarrow> Some e
           | Inr v \<Rightarrow>
               if \<not> isinstance v expected_type
               then Some (TypeMismatchError key expected_type (type_of v))
               else validate_loop rest config))"

text \<open>
  \<^verbatim>\<open>validate_config(schema)(func)\<close>, the \<^verbatim>\<open>wrapper\<close>: call \<open>func\<close>, check what it
  returned, log, and return the same object.
\<close>

definition validate_config :: "schema \<Rightarrow> ('a \<Rightarrow> state \<Rightarrow> pyobj result) \<Rightarrow> 'a \<Rightarrow> state \<Rightarrow> pyobj result" where
  "validate_config schema func args s =
     (case func args s of
        (Inl e, s') \<Rightarrow> (Inl e, s')
      | (Inr config, s') \<Rightarrow>
          (case validate_loop schema (obj_val config) of
             Some e \<Rightarrow> (Inl e, s')
           | None \<Rightarrow> (Inr config, emit (Logging_info (Validated_against schema)) s')))"

text \<open>
  The validator on its own, as a unit test calls it: the decorated function just
  returns the given object.
\<close>

definition validate :: "schema \<Rightarrow> pyobj \<Rightarrow> state \<Rightarrow> pyobj result" where
  "validate schema config s = validate_config schema (\<lambda>c s. (Inr c, s)) config s"

section \<open>ConfigLoader\<close>

text \<open>An instance: its identity and its one attribute.\<close>

record ConfigLoader =
  ident :: nat
  config_dir :: string

definition new_ConfigLoader :: "string \<Rightarrow> state \<Rightarrow> ConfigLoader \<times> state" where
  "new_ConfigLoader dir s =
     (\<lparr>ident = next_id s, config_dir = dir\<rparr>, s\<lparr>next_id := Suc (next_id s)\<rparr>)"

text \<open>\<^verbatim>\<open>os.path.join(a, b)\<close> on a POSIX system.\<close>

definition os_path_join :: "string \<Rightarrow> string \<Rightarrow> string" where
  "os_path_join a b =
     (if take 1 b = ''/'' then b
      else if a = [] \<or> last a = CHR ''/'' then a @ b
      else a @ ''/'' @ b)"

definition config_path :: "ConfigLoader \<Rightarrow> string \<Rightarrow> string" where
  "config_path self config_name = os_path_join (config_dir self) (config_name @ ''.json'')"

text \<open>The body of \<^verbatim>\<open>load\<close>, before the decorators.\<close>

definition load_undecorated :: "ConfigLoader \<times> string \<Rightarrow> state \<Rightarrow> pyobj result" where
  "load_undecorated args s =
     (let file_path = config_path (fst args) (snd args);
          s1 = emit (Os_path_exists file_path) s
      in case files s file_path of
           None \<Rightarrow> (Inl (FileNotFoundConfigError file_path), s1)
         | Some Directory \<Rightarrow> (Inl (IsADirectoryError file_path), emit (Open_read file_path) s1)
         | Some (Regular_file (Not_JSON msg)) \<Rightarrow>
             (Inl (JSONDecodeError msg), emit (Open_read file_path) s1)
         | Some (Regular_file (JSON_text v)) \<Rightarrow>
             (Inr \<lparr>obj_id = next_id s, obj_val = v\<rparr>,
              emit (Logging_info (Loaded_from file_path))
                (emit (Open_read file_path) s1)\<lparr>next_id := Suc (next_id s)\<rparr>))"

text \<open>
  \<^verbatim>\<open>functools.lru_cache(maxsize)\<close> for a positive \<open>maxsize\<close>, on the positional call
  \<^verbatim>\<open>loader.load(config_name)\<close>. The key is the argument tuple; \<open>self\<close> is hashed and
  compared by identity. A hit moves the entry to the most recently used end and
  returns the stored object. A miss calls the function; an exception passes through
  with the table as it is; a result is stored at the most recently used end, in place
  of the least recently used entry when the table is full.
\<close>

definition make_key :: "ConfigLoader \<times> string \<Rightarrow> nat \<times> string" where
  "make_key args = (ident (fst args), snd args)"

definition lru_cache ::
  "nat \<Rightarrow> (ConfigLoader \<times> string \<Rightarrow> state \<Rightarrow> pyobj result) \<Rightarrow> ConfigLoader \<times> string \<Rightarrow> state \<Rightarrow> pyobj result" where
  "lru_cache maxsize user_function args s =
     (let key = make_key args in
      case map_of (cache s) key of
        Some result \<Rightarrow>
          (Inr result, s\<lparr>cache := filter (\<lambda>kv. fst kv \<noteq> key) (cache s) @ [(key, result)]\<rparr>)
      | None \<Rightarrow>
          (case user_function args s of
             (Inl e, s') \<Rightarrow> (Inl e, s')
           | (Inr result, s') \<Rightarrow>
               (Inr result,
                if key \<in> fst ` set (cache s') then s'
                else if maxsize \<le> length (cache s')
                then s'\<lparr>cache := tl (cache s') @ [(key, result)]\<rparr>
                else s'\<lparr>cache := cache s' @ [(key, result)]\<rparr>)))"

definition load_schema :: schema where
  "load_schema = [(''host'', PyStr), (''port'', PyInt), (''debug'', PyBool)]"

text \<open>The method as the class has it: both decorators applied.\<close>

definition load :: "ConfigLoader \<Rightarrow> string \<Rightarrow> state \<Rightarrow> pyobj result" where
  "load self config_name s =
     lru_cache 5 (validate_config load_schema load_undecorated) (self, config_name) s"

section \<open>Drivers and sample data for the theorems\<close>

text \<open>
  A configuration file that loads: it exists, is a regular file, holds JSON, and the
  value passes the loader's schema.
\<close>

definition valid_config_file :: "state \<Rightarrow> ConfigLoader \<Rightarrow> string \<Rightarrow> bool" where
  "valid_config_file s self name \<longleftrightarrow>
     (case files s (config_path self name) of
        Some (Regular_file (JSON_text v)) \<Rightarrow> validate_loop load_schema v = None
      | _ \<Rightarrow> False)"

text \<open>
  A caller loading several names through one instance, one call after the other, each
  result discarded.
\<close>

fun run_loads :: "ConfigLoader \<Rightarrow> string list \<Rightarrow> state \<Rightarrow> state" where
  "run_loads self [] s = s"
| "run_loads self (name # names) s = run_loads self names (snd (load self name s))"

text \<open>
  The order of the keys of a table of capacity 5 after a successful call with key
  \<open>k\<close>, least recently used first. It is used to compute with the cache's keys.
\<close>

definition lru_keys :: "'k \<Rightarrow> 'k list \<Rightarrow> 'k list" where
  "lru_keys k ks =
     (if k \<in> set ks then filter (\<lambda>k'. k' \<noteq> k) ks @ [k]
      else (if 5 \<le> length ks then tl ks else ks) @ [k])"

text \<open>
  Sample data: the configuration of the module's own example, a directory
  \<^verbatim>\<open>configs\<close> with seven such files, one file that is not JSON and one that
  holds the number 5, and two instances over that directory.
\<close>

definition demo_config :: json where
  "demo_config =
     JObj [(''host'', JStr ''localhost''), (''port'', JInt 8080), (''debug'', JBool True)]"

definition demo_names :: "string list" where
  "demo_names = [''c1'', ''c2'', ''c3'', ''c4'', ''c5'', ''c6'']"

definition demo_files :: "string \<rightharpoonup> node" where
  "demo_files =
     map_of ((''configs/broken.json'', Regular_file (Not_JSON ''Expecting property name''))
             # (''configs/five.json'', Regular_file (JSON_text (JInt 5)))
             # map (\<lambda>n. (''configs/'' @ n @ ''.json'', Regular_file (JSON_text demo_config)))
                 (''app_config'' # demo_names))"

definition demo_state :: state where
  "demo_state = \<lparr>files = demo_files, cache = [], next_id = 2, trace = []\<rparr>"

definition demo_loader :: ConfigLoader where
  "demo_loader = \<lparr>ident = 0, config_dir = ''configs''\<rparr>"

definition other_loader :: ConfigLoader where
  "other_loader = \<lparr>ident = 1, config_dir = ''configs''\<rparr>"

section \<open>The validator\<close>

lemma in_keys_iff: "k \<in> fst ` set kvs \<longleftrightarrow> map_of kvs k \<noteq> None"
  by (simp add: map_of_eq_None_iff)

text \<open>
  One iteration of the loop on a dict: the key is looked up once, absence is decided
  first, the type second.
\<close>

lemma validate_loop_dict:
  "validate_loop ((key, t) # rest) (JObj kvs) =
     (case map_of kvs key of
        None \<Rightarrow> Some (MissingKeyError key)
      | Some v \<Rightarrow> if isinstance v t then validate_loop rest (JObj kvs)
                  else Some (TypeMismatchError key t (type_of v)))"
  by (cases "map_of kvs key") (auto simp: in_keys_iff)

lemma validate_loop_append:
  "validate_loop (pre @ post) config =
     (case validate_loop pre config of Some e \<Rightarrow> Some e | None \<Rightarrow> validate_loop post config)"
  by (induction pre) (auto split: sum.splits bool.splits)

declare validate_loop.simps(2) [simp del]

lemma isinstance_int: "isinstance v PyInt \<longleftrightarrow> type_of v = PyInt \<or> type_of v = PyBool"
  by (auto simp: isinstance_def issubclass_def)

lemma exact_type_isinstance: "type_of v = t \<Longrightarrow> isinstance v t"
  by (simp add: isinstance_def issubclass_def)

lemma validate_loop_all_ok:
  assumes "\<forall>(k, t) \<in> set schema. \<exists>v. map_of kvs k = Some v \<and> isinstance v t"
  shows "validate_loop schema (JObj kvs) = None"
  using assms
proof (induction schema)
  case Nil
  show ?case by simp
next
  case (Cons e schema)
  obtain k t where e: "e = (k, t)" by (cases e)
  from Cons.prems e obtain v where "map_of kvs k = Some v" "isinstance v t" by auto
  moreover from Cons have "validate_loop schema (JObj kvs) = None" by simp
  ultimately show ?case unfolding e by (simp add: validate_loop_dict)
qed

lemma missing_not_mismatch: "MissingKeyError key \<noteq> TypeMismatchError k t a"
  by (simp add: MissingKeyError_def TypeMismatchError_def)

lemma validate_loop_dict_ConfigError:
  "validate_loop schema (JObj kvs) = Some e \<Longrightarrow> is_ConfigError e"
proof (induction schema)
  case Nil
  then show ?case by simp
next
  case (Cons a schema)
  obtain k t where e: "a = (k, t)" by (cases a)
  from Cons show ?case unfolding e
    by (auto simp: validate_loop_dict MissingKeyError_def TypeMismatchError_def
        split: option.splits if_splits)
qed

lemma validate_loop_missing_fails:
  assumes "(key, t) \<in> set schema" "key \<notin> fst ` set kvs"
  shows "validate_loop schema (JObj kvs) \<noteq> None"
  using assms
proof (induction schema)
  case Nil
  then show ?case by simp
next
  case (Cons a schema)
  obtain k t' where e: "a = (k, t')" by (cases a)
  from Cons show ?case unfolding e
    by (auto simp: validate_loop_dict in_keys_iff split: option.splits)
qed

lemma demo_config_valid: "validate_loop load_schema demo_config = None"
  by (simp add: load_schema_def demo_config_def validate_loop_dict isinstance_def issubclass_def)

text \<open>
  C1 (as the code has it). The type test is \<^verbatim>\<open>isinstance\<close>, a subclass test, and
  \<^verbatim>\<open>bool\<close> is a subclass of \<^verbatim>\<open>int\<close>. For a schema entry that maps a key to the
  integer type and a configuration object that binds the key to a value \<open>v\<close>, the
  check of that key passes when \<open>v\<close> is an integer or a boolean, and the loop goes on
  to the next entry; for a value of any other type it raises \<open>TypeMismatchError\<close> for
  the key, with the expected and the actual class.
\<close>

theorem bool_passes_integer_check:
  assumes "map_of kvs key = Some v"
  shows "validate_loop ((key, PyInt) # rest) (JObj kvs) =
           (if type_of v = PyInt \<or> type_of v = PyBool then validate_loop rest (JObj kvs)
            else Some (TypeMismatchError key PyInt (type_of v)))"
  using assms by (simp add: validate_loop_dict isinstance_int)

text \<open>
  The theorem at a boolean and at a string port.
\<close>

theorem bool_passes_integer_check_witness:
  "map_of [(''port'', JBool True)] ''port'' = Some (JBool True) \<and>
   validate_loop [(''port'', PyInt)] (JObj [(''port'', JBool True)]) = None \<and>
   map_of [(''port'', JStr ''80'')] ''port'' = Some (JStr ''80'') \<and>
   validate_loop [(''port'', PyInt)] (JObj [(''port'', JStr ''80'')]) =
     Some (TypeMismatchError ''port'' PyInt PyStr)"
  using bool_passes_integer_check [of "[(''port'', JBool True)]" "''port''" "JBool True" "[]"]
    bool_passes_integer_check [of "[(''port'', JStr ''80'')]" "''port''" "JStr ''80''" "[]"]
  by simp

text \<open>
  C1 as stated fails: with the loader's schema, a configuration whose \<^verbatim>\<open>port\<close> is
  \<^verbatim>\<open>true\<close> passes validation and is returned.
\<close>

theorem bool_port_passes_validation:
  "validate load_schema
     \<lparr>obj_id = 7, obj_val = JObj [(''host'', JStr ''localhost''), (''port'', JBool True),
                                 (''debug'', JBool False)]\<rparr> demo_state =
   (Inr \<lparr>obj_id = 7, obj_val = JObj [(''host'', JStr ''localhost''), (''port'', JBool True),
                                      (''debug'', JBool False)]\<rparr>,
    emit (Logging_info (Validated_against load_schema)) demo_state)"
  by (simp add: validate_def validate_config_def load_schema_def validate_loop_dict
      isinstance_def issubclass_def)

text \<open>
  C7 (as the code has it). When a configuration object lacks a schema key, validation
  fails with a \<open>ConfigError\<close>, the one of the first violation in the schema's order.
  It is \<open>MissingKeyError\<close> for the missing key when every entry enumerated before it
  is bound to a value of its expected type. When an entry before it is bound to a value
  of another type, and the entries before that one are in order, it is the
  \<open>TypeMismatchError\<close> of that entry, with its key, its expected class and the class
  of the value. Absence is checked before the type: the iteration that reaches an absent
  key raises \<open>MissingKeyError\<close>, whatever type the schema expects, and never
  \<open>TypeMismatchError\<close>.
\<close>

theorem validate_missing_key:
  assumes "schema = pre @ (key, t) # post" and "key \<notin> fst ` set kvs"
  shows "(\<exists>m. validate_loop schema (JObj kvs) = Some (ConfigError m)) \<and>
         ((\<forall>(k, t') \<in> set pre. \<exists>v. map_of kvs k = Some v \<and> isinstance v t') \<longrightarrow>
            validate_loop schema (JObj kvs) = Some (MissingKeyError key)) \<and>
         (\<forall>pre1 k' t' pre2 v.
            pre = pre1 @ (k', t') # pre2 \<and>
            (\<forall>(k, t'') \<in> set pre1. \<exists>w. map_of kvs k = Some w \<and> isinstance w t'') \<and>
            map_of kvs k' = Some v \<and> \<not> isinstance v t' \<longrightarrow>
            validate_loop schema (JObj kvs) = Some (TypeMismatchError k' t' (type_of v))) \<and>
         (\<forall>t0 rest k' t' a.
            validate_loop ((key, t0) # rest) (JObj kvs) = Some (MissingKeyError key) \<and>
            validate_loop ((key, t0) # rest) (JObj kvs) \<noteq> Some (TypeMismatchError k' t' a))"
proof (intro conjI impI allI)
  have "validate_loop schema (JObj kvs) \<noteq> None"
    using assms validate_loop_missing_fails [of key t schema kvs] by simp
  then obtain e where e: "validate_loop schema (JObj kvs) = Some e" by auto
  then have "is_ConfigError e" by (rule validate_loop_dict_ConfigError)
  then obtain m where "e = ConfigError m" by (cases e) auto
  with e show "\<exists>m. validate_loop schema (JObj kvs) = Some (ConfigError m)" by simp
next
  assume "\<forall>(k, t') \<in> set pre. \<exists>v. map_of kvs k = Some v \<and> isinstance v t'"
  then have "validate_loop pre (JObj kvs) = None" by (rule validate_loop_all_ok)
  moreover have "map_of kvs key = None" using assms(2) by (simp add: in_keys_iff)
  ultimately show "validate_loop schema (JObj kvs) = Some (MissingKeyError key)"
    unfolding assms(1) by (simp add: validate_loop_append validate_loop_dict)
next
  fix pre1 k' t' pre2 v
  assume a: "pre = pre1 @ (k', t') # pre2 \<and>
            (\<forall>(k, t'') \<in> set pre1. \<exists>w. map_of kvs k = Some w \<and> isinstance w t'') \<and>
            map_of kvs k' = Some v \<and> \<not> isinstance v t'"
  then have "validate_loop pre1 (JObj kvs) = None" by (intro validate_loop_all_ok) simp
  moreover have "schema = pre1 @ (k', t') # (pre2 @ (key, t) # post)"
    using a assms(1) by simp
  ultimately show "validate_loop schema (JObj kvs) = Some (TypeMismatchError k' t' (type_of v))"
    using a by (simp add: validate_loop_append validate_loop_dict)
next
  fix t0 rest k' t' a
  have "map_of kvs key = None" using assms(2) by (simp add: in_keys_iff)
  then show "validate_loop ((key, t0) # rest) (JObj kvs) = Some (MissingKeyError key)"
    by (simp add: validate_loop_dict)
  then show "validate_loop ((key, t0) # rest) (JObj kvs) \<noteq> Some (TypeMismatchError k' t' a)"
    by (simp add: missing_not_mismatch)
qed

text \<open>
  The theorem at the loader's schema and two configurations without \<^verbatim>\<open>port\<close>: one
  with a well-typed \<^verbatim>\<open>host\<close>, one whose \<^verbatim>\<open>host\<close> is a number.
\<close>

theorem validate_missing_key_witness:
  "load_schema = [(''host'', PyStr)] @ (''port'', PyInt) # [(''debug'', PyBool)] \<and>
   ''port'' \<notin> fst ` set [(''host'', JStr ''h''), (''debug'', JBool True)] \<and>
   validate_loop load_schema (JObj [(''host'', JStr ''h''), (''debug'', JBool True)]) =
     Some (MissingKeyError ''port'') \<and>
   ''port'' \<notin> fst ` set [(''host'', JInt 5), (''debug'', JBool True)] \<and>
   validate_loop load_schema (JObj [(''host'', JInt 5), (''debug'', JBool True)]) =
     Some (TypeMismatchError ''host'' PyStr PyInt)"
proof -
  have s: "load_schema = [(''host'', PyStr)] @ (''port'', PyInt) # [(''debug'', PyBool)]"
    by (simp add: load_schema_def)
  have m: "''port'' \<notin> fst ` set [(''host'', JStr ''h''), (''debug'', JBool True)]" by simp
  have p: "\<forall>(k, t') \<in> set [(''host'', PyStr)].
             \<exists>v. map_of [(''host'', JStr ''h''), (''debug'', JBool True)] k = Some v \<and> isinstance v t'"
    by (simp add: isinstance_def issubclass_def)
  have m': "''port'' \<notin> fst ` set [(''host'', JInt 5), (''debug'', JBool True)]" by simp
  have q: "[(''host'', PyStr)] = [] @ (''host'', PyStr) # [] \<and>
           (\<forall>(k, t'') \<in> set []. \<exists>w. map_of [(''host'', JInt 5), (''debug'', JBool True)] k = Some w
              \<and> isinstance w t'') \<and>
           map_of [(''host'', JInt 5), (''debug'', JBool True)] ''host'' = Some (JInt 5) \<and>
           \<not> isinstance (JInt 5) PyStr"
    by (simp add: isinstance_def issubclass_def)
  have first: "validate_loop load_schema (JObj [(''host'', JStr ''h''), (''debug'', JBool True)]) =
     Some (MissingKeyError ''port'')"
    using validate_missing_key [OF s m] p by blast
  have "validate_loop load_schema (JObj [(''host'', JInt 5), (''debug'', JBool True)]) =
     Some (TypeMismatchError ''host'' PyStr (type_of (JInt 5)))"
    using validate_missing_key [OF s m'] q by blast
  then have second: "validate_loop load_schema (JObj [(''host'', JInt 5), (''debug'', JBool True)]) =
     Some (TypeMismatchError ''host'' PyStr PyInt)" by simp
  from s m first m' second show ?thesis by - (intro conjI, assumption+)
qed

text \<open>
  C7 as stated fails: \<^verbatim>\<open>port\<close> is the first missing key, but \<^verbatim>\<open>host\<close>, which
  comes first in the schema, has the wrong type, and that is the error raised.
\<close>

theorem wrong_type_reported_before_missing_key:
  "''port'' \<notin> fst ` set [(''host'', JInt 5), (''debug'', JBool True)] \<and>
   validate_loop load_schema (JObj [(''host'', JInt 5), (''debug'', JBool True)]) =
     Some (TypeMismatchError ''host'' PyStr PyInt) \<and>
   validate_loop load_schema (JObj [(''host'', JInt 5), (''debug'', JBool True)]) \<noteq>
     Some (MissingKeyError ''port'')"
  by (simp add: load_schema_def validate_loop_dict isinstance_def issubclass_def
      missing_not_mismatch [symmetric])

text \<open>
  C8. A configuration object that binds every schema key to a value of the expected
  type (an exact match of the class is enough, see \<open>exact_type_isinstance\<close>) passes:
  the validator returns the very object it was given, identity and value, whatever
  other keys it holds, and its only effect is the log record.
\<close>

theorem validate_pass_through:
  assumes "obj_val config = JObj kvs"
    and "\<forall>(k, t) \<in> set schema. \<exists>v. map_of kvs k = Some v \<and> isinstance v t"
  shows "validate schema config s = (Inr config, emit (Logging_info (Validated_against schema)) s)"
  using validate_loop_all_ok [OF assms(2)] assms(1)
  by (simp add: validate_def validate_config_def)

text \<open>
  The theorem at a configuration with an extra key.
\<close>

theorem validate_pass_through_witness:
  "validate load_schema
     \<lparr>obj_id = 7, obj_val = JObj [(''host'', JStr ''localhost''), (''port'', JInt 8080),
                                 (''debug'', JBool True), (''extra'', JArr [JInt 1, JNull])]\<rparr>
     demo_state =
   (Inr \<lparr>obj_id = 7, obj_val = JObj [(''host'', JStr ''localhost''), (''port'', JInt 8080),
                                 (''debug'', JBool True), (''extra'', JArr [JInt 1, JNull])]\<rparr>,
    emit (Logging_info (Validated_against load_schema)) demo_state)"
  by (rule validate_pass_through
        [of _ "[(''host'', JStr ''localhost''), (''port'', JInt 8080),
                (''debug'', JBool True), (''extra'', JArr [JInt 1, JNull])]"])
     (simp_all add: load_schema_def isinstance_def issubclass_def)

section \<open>One call of load\<close>

text \<open>
  The decorated function leaves the cache and the file system alone; only
  \<open>lru_cache\<close> writes the cache.
\<close>

lemma inner_cache:
  "cache (snd (validate_config schema load_undecorated args s)) = cache s"
  by (simp add: validate_config_def load_undecorated_def Let_def emit_def
      split: option.splits node.splits contents.splits)

lemma inner_files:
  "files (snd (validate_config schema load_undecorated args s)) = files s"
  by (simp add: validate_config_def load_undecorated_def Let_def emit_def
      split: option.splits node.splits contents.splits)

lemma load_files: "files (snd (load self name s)) = files s"
  using inner_files [of load_schema "(self, name)" s]
  by (auto simp: load_def lru_cache_def Let_def split: option.splits prod.splits sum.splits)

text \<open>
  The two paths of \<open>load\<close>: a hit returns the stored object and touches the
  entry; a miss runs the decorated function and stores its result.
\<close>

lemma load_hit:
  assumes "map_of (cache s) (ident self, name) = Some obj"
  shows "load self name s =
           (Inr obj, s\<lparr>cache := filter (\<lambda>kv. fst kv \<noteq> (ident self, name)) (cache s)
                                   @ [((ident self, name), obj)]\<rparr>)"
  using assms by (simp add: load_def lru_cache_def make_key_def Let_def)

lemma load_miss:
  assumes "(ident self, name) \<notin> fst ` set (cache s)"
  shows "load self name s =
     (case validate_config load_schema load_undecorated (self, name) s of
        (Inl e, s') \<Rightarrow> (Inl e, s')
      | (Inr result, s') \<Rightarrow>
          (Inr result,
           s'\<lparr>cache := (if 5 \<le> length (cache s) then tl (cache s) else cache s)
                         @ [((ident self, name), result)]\<rparr>))"
proof -
  have none: "map_of (cache s) (ident self, name) = None"
    using assms by (simp add: in_keys_iff)
  show ?thesis
  proof (cases "validate_config load_schema load_undecorated (self, name) s")
    case (Pair r s')
    have c: "cache s' = cache s"
      using inner_cache [of load_schema "(self, name)" s] Pair by simp
    show ?thesis
      using none assms Pair c
      by (cases r) (simp_all add: load_def lru_cache_def make_key_def)
  qed
qed

lemma load_absent:
  assumes "(ident self, name) \<notin> fst ` set (cache s)"
    and "files s (config_path self name) = None"
  shows "load self name s =
           (Inl (FileNotFoundConfigError (config_path self name)),
            emit (Os_path_exists (config_path self name)) s)"
  using assms(2)
  by (simp add: load_miss [OF assms(1)] validate_config_def load_undecorated_def Let_def)

lemma load_not_json:
  assumes "(ident self, name) \<notin> fst ` set (cache s)"
    and "files s (config_path self name) = Some (Regular_file (Not_JSON msg))"
  shows "load self name s =
           (Inl (JSONDecodeError msg),
            emit (Open_read (config_path self name))
              (emit (Os_path_exists (config_path self name)) s))"
  using assms(2)
  by (simp add: load_miss [OF assms(1)] validate_config_def load_undecorated_def Let_def)

lemma load_json:
  assumes "(ident self, name) \<notin> fst ` set (cache s)"
    and "files s (config_path self name) = Some (Regular_file (JSON_text v))"
  shows "load self name s =
     (case validate_loop load_schema v of
        Some e \<Rightarrow>
          (Inl e, s\<lparr>next_id := Suc (next_id s),
                    trace := trace s @ [Os_path_exists (config_path self name),
                                        Open_read (config_path self name),
                                        Logging_info (Loaded_from (config_path self name))]\<rparr>)
      | None \<Rightarrow>
          (Inr \<lparr>obj_id = next_id s, obj_val = v\<rparr>,
           s\<lparr>next_id := Suc (next_id s),
             trace := trace s @ [Os_path_exists (config_path self name),
                                 Open_read (config_path self name),
                                 Logging_info (Loaded_from (config_path self name)),
                                 Logging_info (Validated_against load_schema)],
             cache := (if 5 \<le> length (cache s) then tl (cache s) else cache s)
                        @ [((ident self, name), \<lparr>obj_id = next_id s, obj_val = v\<rparr>)]\<rparr>))"
  using assms(2)
  by (simp add: load_miss [OF assms(1)] validate_config_def load_undecorated_def Let_def emit_def
      split: option.splits)

lemma map_of_snoc_fresh: "k \<notin> fst ` set xs \<Longrightarrow> map_of (xs @ [(k, v)]) k = Some v"
  by (simp add: map_add_def in_keys_iff)

lemma map_of_touch: "map_of (filter (\<lambda>kv. fst kv \<noteq> k) xs @ [(k, v)]) k = Some v"
  by (rule map_of_snoc_fresh) auto

lemma load_failure:
  assumes "fst (load self name s) = Inl e"
  shows "(ident self, name) \<notin> fst ` set (cache s)"
    and "cache (snd (load self name s)) = cache s"
    and "fst (validate_config load_schema load_undecorated (self, name) s) = Inl e"
proof -
  show miss: "(ident self, name) \<notin> fst ` set (cache s)"
  proof
    assume "(ident self, name) \<in> fst ` set (cache s)"
    then obtain obj where "map_of (cache s) (ident self, name) = Some obj"
      by (auto simp: in_keys_iff)
    from load_hit [OF this] assms show False by simp
  qed
  obtain r s' where inner: "validate_config load_schema load_undecorated (self, name) s = (r, s')"
    by (cases "validate_config load_schema load_undecorated (self, name) s")
  have c: "cache s' = cache s"
    using inner_cache [of load_schema "(self, name)" s] inner by simp
  from assms inner show "fst (validate_config load_schema load_undecorated (self, name) s) = Inl e"
    by (cases r) (simp_all add: load_miss [OF miss])
  from assms inner c show "cache (snd (load self name s)) = cache s"
    by (cases r) (simp_all add: load_miss [OF miss])
qed

lemma inner_error_again:
  assumes "fst (validate_config load_schema load_undecorated args s) = Inl e"
    and "files s' = files s"
  shows "fst (validate_config load_schema load_undecorated args s') = Inl e"
  using assms
  by (auto simp: validate_config_def load_undecorated_def Let_def
      split: option.splits node.splits contents.splits)

lemma inner_trace:
  "\<exists>rest. trace (snd (validate_config schema load_undecorated (self, name) s)) =
     trace s @ Os_path_exists (config_path self name) # rest"
  by (simp add: validate_config_def load_undecorated_def Let_def emit_def
      split: option.splits node.splits contents.splits)

lemma load_miss_trace:
  assumes "(ident self, name) \<notin> fst ` set (cache s)"
  shows "\<exists>rest. trace (snd (load self name s)) =
     trace s @ Os_path_exists (config_path self name) # rest"
  using inner_trace [of load_schema self name s]
  by (auto simp: load_miss [OF assms] split: prod.splits sum.splits)

lemma load_success_cached:
  assumes "fst (load self name s) = Inr obj"
  shows "map_of (cache (snd (load self name s))) (ident self, name) = Some obj"
proof (cases "map_of (cache s) (ident self, name)")
  case (Some obj')
  from load_hit [OF Some] assms show ?thesis by (simp add: map_of_touch del: map_of_append)
next
  case None
  then have miss: "(ident self, name) \<notin> fst ` set (cache s)" by (simp add: in_keys_iff)
  then have "(ident self, name) \<notin> fst ` set (tl (cache s))"
    by (cases "cache s") auto
  then have "map_of (tl (cache s)) (ident self, name) = None" by (simp add: in_keys_iff)
  with None assms show ?thesis
    by (auto simp: load_miss [OF miss] map_add_def split: prod.splits sum.splits)
qed

lemma demo_miss: "(ident self, n) \<notin> fst ` set (cache demo_state)"
  by (simp add: demo_state_def)

lemma demo_broken_path: "config_path demo_loader ''broken'' = ''configs/broken.json''"
  by (simp add: config_path_def os_path_join_def demo_loader_def)

lemma demo_broken_file:
  "files demo_state (config_path demo_loader ''broken'') =
     Some (Regular_file (Not_JSON ''Expecting property name''))"
  by (simp add: demo_broken_path demo_state_def demo_files_def)

lemma demo_first_load:
  "load demo_loader ''app_config'' demo_state =
     (Inr \<lparr>obj_id = 2, obj_val = demo_config\<rparr>,
      demo_state\<lparr>next_id := 3,
        trace := [Os_path_exists ''configs/app_config.json'', Open_read ''configs/app_config.json'',
                  Logging_info (Loaded_from ''configs/app_config.json''),
                  Logging_info (Validated_against load_schema)],
        cache := [((0, ''app_config''), \<lparr>obj_id = 2, obj_val = demo_config\<rparr>)]\<rparr>)"
proof -
  have p: "config_path demo_loader ''app_config'' = ''configs/app_config.json''"
    by (simp add: config_path_def os_path_join_def demo_loader_def)
  have miss: "(ident demo_loader, ''app_config'') \<notin> fst ` set (cache demo_state)"
    by (simp add: demo_state_def)
  have f: "files demo_state (config_path demo_loader ''app_config'') =
             Some (Regular_file (JSON_text demo_config))"
    by (simp add: p demo_state_def demo_files_def)
  show ?thesis
    by (simp add: load_json [OF miss f] demo_config_valid p)
       (simp add: demo_state_def demo_loader_def)
qed

text \<open>
  C9 (as the code has it). The cache is consulted before the file system. For a name
  that is not cached for this instance and whose file does not exist, \<open>load\<close> fails
  with \<open>FileNotFoundConfigError\<close> carrying the path that \<^verbatim>\<open>os.path.join\<close> builds
  from \<open>config_dir\<close> and \<^verbatim>\<open>{name}.json\<close>, after the one existence test.
\<close>

theorem load_missing_file:
  assumes "(ident self, name) \<notin> fst ` set (cache s)"
    and "files s (os_path_join (config_dir self) (name @ ''.json'')) = None"
  shows "load self name s =
           (Inl (FileNotFoundConfigError (os_path_join (config_dir self) (name @ ''.json''))),
            emit (Os_path_exists (os_path_join (config_dir self) (name @ ''.json''))) s)"
  using load_absent [OF assms(1)] assms(2) by (simp add: config_path_def)

text \<open>
  The theorem at \<^verbatim>\<open>load("nonexistent")\<close>.
\<close>

theorem load_missing_file_witness:
  "(ident demo_loader, ''nonexistent'') \<notin> fst ` set (cache demo_state) \<and>
   files demo_state ''configs/nonexistent.json'' = None \<and>
   fst (load demo_loader ''nonexistent'' demo_state) =
     Inl (ConfigError ''Configuration file not found: configs/nonexistent.json'')"
proof -
  have p: "os_path_join (config_dir demo_loader) (''nonexistent'' @ ''.json'') = ''configs/nonexistent.json''"
    by (simp add: os_path_join_def demo_loader_def)
  have f: "files demo_state ''configs/nonexistent.json'' = None"
    by (simp add: demo_state_def demo_files_def demo_names_def)
  from load_missing_file [of demo_loader "''nonexistent''" demo_state] demo_miss [of demo_loader "''nonexistent''"] p f
  show ?thesis by (simp add: FileNotFoundConfigError_def)
qed

text \<open>
  C9 as stated fails: once a name is cached, removing its file does not make
  \<open>load\<close> fail; the cached object is returned.
\<close>

theorem cached_name_survives_file_removal:
  "files ((snd (load demo_loader ''app_config'' demo_state))\<lparr>files := Map.empty\<rparr>)
     (os_path_join (config_dir demo_loader) (''app_config'' @ ''.json'')) = None \<and>
   fst (load demo_loader ''app_config''
          ((snd (load demo_loader ''app_config'' demo_state))\<lparr>files := Map.empty\<rparr>)) =
     Inr \<lparr>obj_id = 2, obj_val = demo_config\<rparr>"
proof -
  let ?s = "(snd (load demo_loader ''app_config'' demo_state))\<lparr>files := Map.empty\<rparr>"
  have "map_of (cache ?s) (ident demo_loader, ''app_config'') = Some \<lparr>obj_id = 2, obj_val = demo_config\<rparr>"
  proof -
    have "ident demo_loader = 0" by (simp add: demo_loader_def)
    then show ?thesis by (simp add: demo_first_load)
  qed
  from load_hit [OF this] show ?thesis by simp
qed

text \<open>
  C2. On a file that is not JSON the exception of \<^verbatim>\<open>json.load\<close> leaves
  \<open>load\<close> as it is: a \<open>JSONDecodeError\<close>, which \<^verbatim>\<open>except ConfigError\<close> does
  not catch.
\<close>

theorem load_malformed_json_escapes:
  "fst (load demo_loader ''broken'' demo_state) = Inl (JSONDecodeError ''Expecting property name'') \<and>
   \<not> is_ConfigError (JSONDecodeError ''Expecting property name'')"
  by (simp add: load_not_json [OF demo_miss demo_broken_file])

text \<open>
  C10. On a file whose JSON value is a number, a boolean or \<^verbatim>\<open>null\<close>, the
  validator's membership test on the first schema key raises \<open>TypeError\<close>, and that
  exception, which is not a \<open>ConfigError\<close>, is what leaves \<open>load\<close>.
\<close>

theorem load_non_object_escapes:
  assumes "(ident self, name) \<notin> fst ` set (cache s)"
    and "files s (config_path self name) = Some (Regular_file (JSON_text v))"
    and "type_of v \<in> {NoneType, PyBool, PyInt, PyFloat}"
  shows "py_in (fst (hd load_schema)) v = Inl (TypeError Membership (type_of v)) \<and>
         fst (load self name s) = Inl (TypeError Membership (type_of v)) \<and>
         \<not> is_ConfigError (TypeError Membership (type_of v))"
proof -
  have m: "py_in ''host'' v = Inl (TypeError Membership (type_of v))"
    using assms(3) by (cases v) simp_all
  then have "validate_loop load_schema v = Some (TypeError Membership (type_of v))"
    by (simp add: load_schema_def validate_loop.simps(2))
  with m show ?thesis by (simp add: load_json [OF assms(1,2)] load_schema_def)
qed

text \<open>
  The theorem at a file holding the number 5.
\<close>

theorem load_non_object_escapes_witness:
  "(ident demo_loader, ''five'') \<notin> fst ` set (cache demo_state) \<and>
   files demo_state ''configs/five.json'' = Some (Regular_file (JSON_text (JInt 5))) \<and>
   py_in ''host'' (JInt 5) = Inl (TypeError Membership PyInt) \<and>
   fst (load demo_loader ''five'' demo_state) = Inl (TypeError Membership PyInt) \<and>
   \<not> is_ConfigError (TypeError Membership PyInt)"
proof -
  have p: "config_path demo_loader ''five'' = ''configs/five.json''"
    by (simp add: config_path_def os_path_join_def demo_loader_def)
  have f: "files demo_state ''configs/five.json'' = Some (Regular_file (JSON_text (JInt 5)))"
    by (simp add: demo_state_def demo_files_def)
  from load_non_object_escapes [of demo_loader "''five''" demo_state "JInt 5"] demo_miss [of demo_loader "''five''"] p f
  show ?thesis by (simp add: load_schema_def)
qed

section \<open>The cache across calls\<close>

text \<open>
  C4. While a name is cached for an instance, \<open>load\<close> returns the cached object
  itself whatever the file system holds, adds nothing to the trace (no file-system call,
  no log record), and leaves the name cached. In particular, after a successful
  \<open>load\<close> the next \<open>load\<close> of the name returns the same object even if the
  files have changed in between.
\<close>

theorem load_cache_hit:
  "(map_of (cache s) (ident self, name) = Some obj \<longrightarrow>
      fst (load self name (s\<lparr>files := fs\<rparr>)) = Inr obj \<and>
      trace (snd (load self name (s\<lparr>files := fs\<rparr>))) = trace s \<and>
      map_of (cache (snd (load self name (s\<lparr>files := fs\<rparr>)))) (ident self, name) = Some obj) \<and>
   (fst (load self name s) = Inr obj \<longrightarrow>
      fst (load self name ((snd (load self name s))\<lparr>files := fs\<rparr>)) = Inr obj \<and>
      trace (snd (load self name ((snd (load self name s))\<lparr>files := fs\<rparr>))) =
        trace (snd (load self name s)))"
proof -
  have hit: "fst (load self name (t\<lparr>files := fs\<rparr>)) = Inr obj \<and>
      trace (snd (load self name (t\<lparr>files := fs\<rparr>))) = trace t \<and>
      map_of (cache (snd (load self name (t\<lparr>files := fs\<rparr>)))) (ident self, name) = Some obj"
    if "map_of (cache t) (ident self, name) = Some obj" for t
  proof -
    from that have "map_of (cache (t\<lparr>files := fs\<rparr>)) (ident self, name) = Some obj" by simp
    from load_hit [OF this] show ?thesis by (simp add: map_of_touch del: map_of_append)
  qed
  show ?thesis using hit [of s] hit [of "snd (load self name s)"] load_success_cached [of self name s obj]
    by blast
qed

text \<open>
  The theorem at the example configuration, the file overwritten between the calls.
\<close>

theorem load_cache_hit_witness:
  "fst (load demo_loader ''app_config'' demo_state) = Inr \<lparr>obj_id = 2, obj_val = demo_config\<rparr> \<and>
   fst (load demo_loader ''app_config''
          ((snd (load demo_loader ''app_config'' demo_state))
             \<lparr>files := [''configs/app_config.json'' \<mapsto> Regular_file (JSON_text (JInt 5))]\<rparr>)) =
     Inr \<lparr>obj_id = 2, obj_val = demo_config\<rparr> \<and>
   trace (snd (load demo_loader ''app_config''
          ((snd (load demo_loader ''app_config'' demo_state))
             \<lparr>files := [''configs/app_config.json'' \<mapsto> Regular_file (JSON_text (JInt 5))]\<rparr>))) =
     trace (snd (load demo_loader ''app_config'' demo_state))"
proof -
  have f: "fst (load demo_loader ''app_config'' demo_state) = Inr \<lparr>obj_id = 2, obj_val = demo_config\<rparr>"
    by (simp add: demo_first_load)
  from load_cache_hit [of demo_state demo_loader "''app_config''" "\<lparr>obj_id = 2, obj_val = demo_config\<rparr>"
      "[''configs/app_config.json'' \<mapsto> Regular_file (JSON_text (JInt 5))]"] f
  show ?thesis by blast
qed

text \<open>
  C6. A call of \<open>load\<close> that fails leaves the cache as it was, without an entry
  for the name, so the next call for the name tests the file system again (and, the
  files being the same, fails with the same error).
\<close>

theorem load_failure_not_cached:
  assumes "fst (load self name s) = Inl e"
  shows "cache (snd (load self name s)) = cache s \<and>
         (ident self, name) \<notin> fst ` set (cache (snd (load self name s))) \<and>
         fst (load self name (snd (load self name s))) = Inl e \<and>
         (\<exists>rest. trace (snd (load self name (snd (load self name s)))) =
            trace (snd (load self name s)) @ Os_path_exists (config_path self name) # rest)"
proof -
  let ?s' = "snd (load self name s)"
  note f = load_failure [OF assms]
  have miss': "(ident self, name) \<notin> fst ` set (cache ?s')" using f(1,2) by simp
  have "fst (validate_config load_schema load_undecorated (self, name) ?s') = Inl e"
    using f(3) load_files [of self name s] by (rule inner_error_again)
  then have again: "fst (load self name ?s') = Inl e"
    by (auto simp: load_miss [OF miss'] split: prod.splits sum.splits)
  from f(2) miss' again load_miss_trace [OF miss'] show ?thesis by simp
qed

text \<open>
  The theorem at the file that is not JSON.
\<close>

theorem load_failure_not_cached_witness:
  "fst (load demo_loader ''broken'' demo_state) = Inl (JSONDecodeError ''Expecting property name'') \<and>
   cache (snd (load demo_loader ''broken'' demo_state)) = [] \<and>
   fst (load demo_loader ''broken'' (snd (load demo_loader ''broken'' demo_state))) =
     Inl (JSONDecodeError ''Expecting property name'') \<and>
   (\<exists>rest. trace (snd (load demo_loader ''broken'' (snd (load demo_loader ''broken'' demo_state)))) =
      trace (snd (load demo_loader ''broken'' demo_state)) @ Os_path_exists ''configs/broken.json'' # rest)"
proof -
  have f: "fst (load demo_loader ''broken'' demo_state) = Inl (JSONDecodeError ''Expecting property name'')"
    by (simp add: load_not_json [OF demo_miss demo_broken_file])
  have c: "cache demo_state = []" by (simp add: demo_state_def)
  from load_failure_not_cached [OF f] f c show ?thesis
    by (simp add: demo_broken_path)
qed

subsection \<open>Eviction\<close>

lemma lru_keys_suffix:
  assumes "k \<notin> set suf" and "length (pre @ suf) \<le> 5" and "length suf < 5"
  shows "\<exists>pre'. lru_keys k (pre @ suf) = pre' @ suf @ [k] \<and> length (pre' @ suf @ [k]) \<le> 5"
proof (cases "k \<in> set pre")
  case True
  have keep: "filter (\<lambda>k'. k' \<noteq> k) suf = suf"
    using assms(1) by (induction suf) auto
  have "length (filter (\<lambda>k'. k' \<noteq> k) pre) < length pre"
    using True by (intro length_filter_less [of k]) simp_all
  with assms(2) have "length (filter (\<lambda>k'. k' \<noteq> k) pre @ suf @ [k]) \<le> 5" by simp
  moreover have "lru_keys k (pre @ suf) = filter (\<lambda>k'. k' \<noteq> k) pre @ suf @ [k]"
    using True by (simp add: lru_keys_def keep)
  ultimately show ?thesis by blast
next
  case False
  show ?thesis
  proof (cases "5 \<le> length (pre @ suf)")
    case True
    with assms(3) obtain x pre' where pre: "pre = x # pre'" by (cases pre) auto
    have "lru_keys k (pre @ suf) = pre' @ suf @ [k]"
      using False assms(1) True by (simp add: lru_keys_def pre)
    moreover have "length (pre' @ suf @ [k]) \<le> 5" using assms(2) by (simp add: pre)
    ultimately show ?thesis by blast
  next
    case full: False
    have "lru_keys k (pre @ suf) = pre @ suf @ [k]"
      using False assms(1) full by (simp add: lru_keys_def)
    moreover have "length (pre @ suf @ [k]) \<le> 5" using full by simp
    ultimately show ?thesis by blast
  qed
qed

lemma lru_keys_five:
  assumes "distinct [a, b, c, d, e]" and "length ks \<le> 5"
  shows "foldl (\<lambda>ks k. lru_keys k ks) ks [a, b, c, d, e] = [a, b, c, d, e]"
proof -
  from lru_keys_suffix [of a "[]" ks] assms(2)
  obtain p1 where 1: "lru_keys a ks = p1 @ [a]" and l1: "length (p1 @ [a]) \<le> 5" by auto
  from lru_keys_suffix [of b "[a]" p1] assms(1) l1
  obtain p2 where 2: "lru_keys b (p1 @ [a]) = p2 @ [a, b]" and l2: "length (p2 @ [a, b]) \<le> 5"
    by auto
  from lru_keys_suffix [of c "[a, b]" p2] assms(1) l2
  obtain p3 where 3: "lru_keys c (p2 @ [a, b]) = p3 @ [a, b, c]"
    and l3: "length (p3 @ [a, b, c]) \<le> 5" by auto
  from lru_keys_suffix [of d "[a, b, c]" p3] assms(1) l3
  obtain p4 where 4: "lru_keys d (p3 @ [a, b, c]) = p4 @ [a, b, c, d]"
    and l4: "length (p4 @ [a, b, c, d]) \<le> 5" by auto
  from lru_keys_suffix [of e "[a, b, c, d]" p4] assms(1) l4
  obtain p5 where 5: "lru_keys e (p4 @ [a, b, c, d]) = p5 @ [a, b, c, d, e]"
    and l5: "length (p5 @ [a, b, c, d, e]) \<le> 5" by auto
  from l5 have "p5 = []" by simp
  with 1 2 3 4 5 show ?thesis by simp
qed

lemma lru_keys_six:
  assumes "distinct [a, b, c, d, e, f]" and "length ks \<le> 5"
  shows "foldl (\<lambda>ks k. lru_keys k ks) ks [a, b, c, d, e, f] = [b, c, d, e, f]"
proof -
  have five: "foldl (\<lambda>ks k. lru_keys k ks) ks [a, b, c, d, e] = [a, b, c, d, e]"
    using assms by (intro lru_keys_five) simp_all
  have "foldl (\<lambda>ks k. lru_keys k ks) ks [a, b, c, d, e, f] =
          lru_keys f (foldl (\<lambda>ks k. lru_keys k ks) ks [a, b, c, d, e])" by simp
  also have "\<dots> = lru_keys f [a, b, c, d, e]" by (simp only: five)
  also have "\<dots> = [b, c, d, e, f]" using assms(1) by (auto simp: lru_keys_def)
  finally show ?thesis .
qed

lemma lru_keys_seven:
  assumes "distinct [a, b, c, d, e, f]" and "length ks \<le> 5"
  shows "foldl (\<lambda>ks k. lru_keys k ks) ks [a, b, c, d, e, a, f] = [c, d, e, a, f]"
proof -
  have five: "foldl (\<lambda>ks k. lru_keys k ks) ks [a, b, c, d, e] = [a, b, c, d, e]"
    using assms by (intro lru_keys_five) simp_all
  have "foldl (\<lambda>ks k. lru_keys k ks) ks [a, b, c, d, e, a, f] =
          lru_keys f (lru_keys a (foldl (\<lambda>ks k. lru_keys k ks) ks [a, b, c, d, e]))" by simp
  also have "\<dots> = lru_keys f (lru_keys a [a, b, c, d, e])" by (simp only: five)
  also have "lru_keys a [a, b, c, d, e] = [b, c, d, e, a]"
    using assms(1) by (auto simp: lru_keys_def)
  also have "lru_keys f [b, c, d, e, a] = [c, d, e, a, f]"
    using assms(1) by (auto simp: lru_keys_def)
  finally show ?thesis .
qed

lemma valid_config_fileD:
  assumes "valid_config_file s self name"
  obtains v where "files s (config_path self name) = Some (Regular_file (JSON_text v))"
    and "validate_loop load_schema v = None"
  using assms unfolding valid_config_file_def
  by (auto split: option.splits node.splits contents.splits)

lemma valid_config_file_load:
  "valid_config_file (snd (load self' name' s)) self name = valid_config_file s self name"
  by (simp add: valid_config_file_def load_files)

lemma load_valid_keys:
  assumes "valid_config_file s self name"
  shows "map fst (cache (snd (load self name s))) = lru_keys (ident self, name) (map fst (cache s))"
proof (cases "map_of (cache s) (ident self, name)")
  case None
  then have miss: "(ident self, name) \<notin> fst ` set (cache s)" by (simp add: in_keys_iff)
  from assms obtain v where "files s (config_path self name) = Some (Regular_file (JSON_text v))"
    and "validate_loop load_schema v = None" by (rule valid_config_fileD)
  with miss show ?thesis
    by (simp add: load_json [OF miss] lru_keys_def map_tl)
next
  case (Some obj)
  then have "(ident self, name) \<in> fst ` set (cache s)" by (simp add: in_keys_iff)
  moreover have "map fst (filter (\<lambda>kv. fst kv \<noteq> k) xs) = filter (\<lambda>k'. k' \<noteq> k) (map fst xs)"
    for k :: "nat \<times> string" and xs :: "((nat \<times> string) \<times> pyobj) list"
    by (induction xs) auto
  ultimately show ?thesis
    by (simp add: load_hit [OF Some] lru_keys_def)
qed

lemma run_loads_keys:
  assumes "\<forall>name \<in> set names. valid_config_file s self name"
  shows "map fst (cache (run_loads self names s)) =
           foldl (\<lambda>ks k. lru_keys k ks) (map fst (cache s)) (map (Pair (ident self)) names)"
  using assms
  by (induction names arbitrary: s) (simp_all add: load_valid_keys valid_config_file_load)

lemma run_loads_files: "files (run_loads self names s) = files s"
  by (induction names arbitrary: s) (simp_all add: load_files)

lemma valid_config_file_run_loads:
  "valid_config_file (run_loads self' names s) self name = valid_config_file s self name"
  by (simp add: valid_config_file_def run_loads_files)

lemma load_valid_reread:
  assumes "valid_config_file s self name" and "(ident self, name) \<notin> fst ` set (cache s)"
  shows "trace (snd (load self name s)) =
           trace s @ [Os_path_exists (config_path self name), Open_read (config_path self name),
                      Logging_info (Loaded_from (config_path self name)),
                      Logging_info (Validated_against load_schema)]"
proof -
  from assms(1) obtain v where "files s (config_path self name) = Some (Regular_file (JSON_text v))"
    and "validate_loop load_schema v = None" by (rule valid_config_fileD)
  then show ?thesis by (simp add: load_json [OF assms(2)])
qed

lemma demo_valid:
  assumes "files s = demo_files" and "config_dir self = ''configs''"
    and "n \<in> set (''app_config'' # demo_names)"
  shows "valid_config_file s self n"
proof -
  have "files s (config_path self n) = Some (Regular_file (JSON_text demo_config))"
    using assms
    by (auto simp: config_path_def os_path_join_def demo_files_def demo_names_def)
  then show ?thesis
    by (simp add: valid_config_file_def demo_config_valid)
qed

lemma demo_after_first_valid:
  assumes "n \<in> set (''app_config'' # demo_names)"
  shows "valid_config_file (snd (load demo_loader ''app_config'' demo_state)) other_loader n"
  using assms
  by (intro demo_valid) (simp_all add: load_files demo_state_def other_loader_def)

text \<open>
  C5. The cache holds at most 5 entries and evicts the least recently used one. From
  any state of the cache, after six distinct loadable names are loaded through one
  instance, the cache holds exactly the last five; the first one is gone, and loading it
  again tests and opens its file. Recency counts hits: if the first name is loaded once
  more before the sixth, the second name is the one evicted.
\<close>

theorem lru_eviction:
  assumes "length (cache s) \<le> 5"
    and "distinct [n1, n2, n3, n4, n5, n6]"
    and "\<forall>name \<in> set [n1, n2, n3, n4, n5, n6]. valid_config_file s self name"
  shows "map fst (cache (run_loads self [n1, n2, n3, n4, n5, n6] s)) =
           map (Pair (ident self)) [n2, n3, n4, n5, n6] \<and>
         trace (snd (load self n1 (run_loads self [n1, n2, n3, n4, n5, n6] s))) =
           trace (run_loads self [n1, n2, n3, n4, n5, n6] s)
           @ [Os_path_exists (config_path self n1), Open_read (config_path self n1),
              Logging_info (Loaded_from (config_path self n1)),
              Logging_info (Validated_against load_schema)] \<and>
         map fst (cache (run_loads self [n1, n2, n3, n4, n5, n1, n6] s)) =
           map (Pair (ident self)) [n3, n4, n5, n1, n6]"
proof -
  let ?s6 = "run_loads self [n1, n2, n3, n4, n5, n6] s"
  let ?k = "Pair (ident self)"
  have d: "distinct [?k n1, ?k n2, ?k n3, ?k n4, ?k n5, ?k n6]"
    using assms(2) by simp
  have l: "length (map fst (cache s)) \<le> 5" using assms(1) by simp
  have keys: "map fst (cache ?s6) = map ?k [n2, n3, n4, n5, n6]"
    using run_loads_keys [OF assms(3)] lru_keys_six [OF d l] by simp
  have "fst ` set (cache ?s6) = set (map fst (cache ?s6))" by simp
  also have "\<dots> = set (map ?k [n2, n3, n4, n5, n6])" by (simp only: keys)
  finally have miss: "(ident self, n1) \<notin> fst ` set (cache ?s6)"
    using assms(2) by auto
  have "valid_config_file ?s6 self n1"
    using assms(3) by (simp add: valid_config_file_run_loads del: run_loads.simps)
  from load_valid_reread [OF this miss] have reread:
    "trace (snd (load self n1 ?s6)) = trace ?s6
           @ [Os_path_exists (config_path self n1), Open_read (config_path self n1),
              Logging_info (Loaded_from (config_path self n1)),
              Logging_info (Validated_against load_schema)]" .
  have v7: "\<forall>name \<in> set [n1, n2, n3, n4, n5, n1, n6]. valid_config_file s self name"
    using assms(3) by simp
  have recency: "map fst (cache (run_loads self [n1, n2, n3, n4, n5, n1, n6] s)) =
           map ?k [n3, n4, n5, n1, n6]"
    using run_loads_keys [OF v7] lru_keys_seven [OF d l] by simp
  from keys reread recency show ?thesis by - (intro conjI, assumption+)
qed

text \<open>
  The theorem at the six sample names.
\<close>

theorem lru_eviction_witness:
  "length (cache demo_state) \<le> 5 \<and> distinct demo_names \<and>
   valid_config_file demo_state demo_loader ''c1'' \<and>
   valid_config_file demo_state demo_loader ''c2'' \<and>
   valid_config_file demo_state demo_loader ''c3'' \<and>
   valid_config_file demo_state demo_loader ''c4'' \<and>
   valid_config_file demo_state demo_loader ''c5'' \<and>
   valid_config_file demo_state demo_loader ''c6'' \<and>
   map fst (cache (run_loads demo_loader [''c1'', ''c2'', ''c3'', ''c4'', ''c5'', ''c6''] demo_state)) =
     [(0, ''c2''), (0, ''c3''), (0, ''c4''), (0, ''c5''), (0, ''c6'')] \<and>
   map fst (cache (run_loads demo_loader [''c1'', ''c2'', ''c3'', ''c4'', ''c5'', ''c1'', ''c6''] demo_state)) =
     [(0, ''c3''), (0, ''c4''), (0, ''c5''), (0, ''c1''), (0, ''c6'')]"
proof -
  have c: "length (cache demo_state) \<le> 5" by (simp add: demo_state_def)
  have d: "distinct [''c1'', ''c2'', ''c3'', ''c4'', ''c5'', ''c6'']" by simp
  have v: "\<forall>name \<in> set demo_names. valid_config_file demo_state demo_loader name"
    by (intro ballI demo_valid) (simp_all add: demo_state_def demo_loader_def)
  then have v': "\<forall>name \<in> set [''c1'', ''c2'', ''c3'', ''c4'', ''c5'', ''c6''].
                  valid_config_file demo_state demo_loader name"
    by (simp only: demo_names_def)
  have i: "ident demo_loader = 0" by (simp add: demo_loader_def)
  from lru_eviction [OF c d v'] c d v i show ?thesis
    by (simp only: demo_names_def) simp
qed

lemma load_cache_bound:
  assumes "length (cache s) \<le> 5"
  shows "length (cache (snd (load self name s))) \<le> 5 \<and>
         fst ` set (cache (snd (load self name s))) \<subseteq> insert (ident self, name) (fst ` set (cache s))"
proof (cases "map_of (cache s) (ident self, name)")
  case None
  then have miss: "(ident self, name) \<notin> fst ` set (cache s)" by (simp add: in_keys_iff)
  have "set (tl (cache s)) \<subseteq> set (cache s)" by (cases "cache s") auto
  with assms show ?thesis
    using inner_cache [of load_schema "(self, name)" s]
    by (auto simp: load_miss [OF miss] split: prod.splits sum.splits)
next
  case (Some obj)
  then have "((ident self, name), obj) \<in> set (cache s)" by (rule map_of_SomeD)
  then have "length (filter (\<lambda>kv. fst kv \<noteq> (ident self, name)) (cache s)) < length (cache s)"
    by (intro length_filter_less [of "((ident self, name), obj)"]) simp_all
  with assms show ?thesis by (auto simp: load_hit [OF Some])
qed

lemma lru_keys_member: "k \<in> set (lru_keys k ks)"
  by (simp add: lru_keys_def)

text \<open>
  C3 (as the code has it). The decorator is applied to the function in the class body,
  so there is one cache of capacity 5 for all instances, keyed by instance and name.
  After a call of \<open>load\<close> through any instance the cache holds at most 5 entries in
  all, and the only key the call can add is the one of its own instance and name; a name
  that is not cached for the calling instance is looked up in the file system, whatever
  the other instances have cached. The instances compete for the five places: from any
  state of the cache, once a name is loaded through one instance, loading five distinct
  names through another instance leaves exactly these five entries, the entry of the
  first instance is evicted, and its next load tests and opens the file again.
\<close>

theorem shared_cache_across_instances:
  assumes "length (cache s) \<le> 5"
  shows "length (cache (snd (load self name s))) \<le> 5 \<and>
         fst ` set (cache (snd (load self name s))) \<subseteq>
           insert (ident self, name) (fst ` set (cache s)) \<and>
         ((ident self, name) \<notin> fst ` set (cache s) \<longrightarrow>
            (\<exists>rest. trace (snd (load self name s)) =
               trace s @ Os_path_exists (config_path self name) # rest)) \<and>
         (ident other \<noteq> ident self \<and> valid_config_file s self name \<and>
          distinct [n1, n2, n3, n4, n5] \<and>
          (\<forall>n \<in> set [n1, n2, n3, n4, n5]. valid_config_file s other n) \<longrightarrow>
            (ident self, name) \<in> fst ` set (cache (snd (load self name s))) \<and>
            map fst (cache (run_loads other [n1, n2, n3, n4, n5] (snd (load self name s)))) =
              map (Pair (ident other)) [n1, n2, n3, n4, n5] \<and>
            (ident self, name) \<notin>
              fst ` set (cache (run_loads other [n1, n2, n3, n4, n5] (snd (load self name s)))) \<and>
            trace (snd (load self name
                     (run_loads other [n1, n2, n3, n4, n5] (snd (load self name s))))) =
              trace (run_loads other [n1, n2, n3, n4, n5] (snd (load self name s)))
              @ [Os_path_exists (config_path self name), Open_read (config_path self name),
                 Logging_info (Loaded_from (config_path self name)),
                 Logging_info (Validated_against load_schema)])"
proof -
  let ?s1 = "snd (load self name s)"
  let ?s2 = "run_loads other [n1, n2, n3, n4, n5] ?s1"
  let ?k = "Pair (ident other)"
  note bound = load_cache_bound [OF assms, of self name]
  have miss_fs: "(ident self, name) \<notin> fst ` set (cache s) \<longrightarrow>
            (\<exists>rest. trace ?s1 = trace s @ Os_path_exists (config_path self name) # rest)"
    using load_miss_trace [of self name s] by blast
  have scenario: "(ident self, name) \<in> fst ` set (cache ?s1) \<and>
            map fst (cache ?s2) = map ?k [n1, n2, n3, n4, n5] \<and>
            (ident self, name) \<notin> fst ` set (cache ?s2) \<and>
            trace (snd (load self name ?s2)) =
              trace ?s2
              @ [Os_path_exists (config_path self name), Open_read (config_path self name),
                 Logging_info (Loaded_from (config_path self name)),
                 Logging_info (Validated_against load_schema)]"
    if other: "ident other \<noteq> ident self" and v: "valid_config_file s self name"
      and d: "distinct [n1, n2, n3, n4, n5]"
      and vs: "\<forall>n \<in> set [n1, n2, n3, n4, n5]. valid_config_file s other n"
  proof -
    have "set (map fst (cache ?s1)) = set (lru_keys (ident self, name) (map fst (cache s)))"
      by (simp only: load_valid_keys [OF v])
    then have inn: "(ident self, name) \<in> fst ` set (cache ?s1)"
      using lru_keys_member [of "(ident self, name)" "map fst (cache s)"] by simp
    have l1: "length (map fst (cache ?s1)) \<le> 5" using bound by simp
    have d': "distinct [?k n1, ?k n2, ?k n3, ?k n4, ?k n5]" using d by simp
    have vs1: "\<forall>n \<in> set [n1, n2, n3, n4, n5]. valid_config_file ?s1 other n"
      using vs by (simp add: valid_config_file_load)
    have keys: "map fst (cache ?s2) = map ?k [n1, n2, n3, n4, n5]"
      using run_loads_keys [OF vs1] lru_keys_five [OF d' l1] by simp
    have "fst ` set (cache ?s2) = set (map fst (cache ?s2))" by simp
    also have "\<dots> = set (map ?k [n1, n2, n3, n4, n5])" by (simp only: keys)
    finally have out: "(ident self, name) \<notin> fst ` set (cache ?s2)"
      using other by auto
    have "valid_config_file ?s2 self name"
      using v by (simp add: valid_config_file_run_loads valid_config_file_load del: run_loads.simps)
    from load_valid_reread [OF this out] inn keys out show ?thesis
      by - (intro conjI, assumption+)
  qed
  from bound miss_fs scenario show ?thesis by blast
qed

text \<open>
  The theorem at the two sample instances: after \<^verbatim>\<open>app_config\<close> is loaded through the
  first, five loads through the second fill the cache and evict it.
\<close>

theorem shared_cache_across_instances_witness:
  "length (cache demo_state) \<le> 5 \<and>
   ident other_loader \<noteq> ident demo_loader \<and>
   valid_config_file demo_state demo_loader ''app_config'' \<and>
   valid_config_file demo_state other_loader ''c1'' \<and>
   valid_config_file demo_state other_loader ''c2'' \<and>
   valid_config_file demo_state other_loader ''c3'' \<and>
   valid_config_file demo_state other_loader ''c4'' \<and>
   valid_config_file demo_state other_loader ''c5'' \<and>
   (0, ''app_config'') \<in> fst ` set (cache (snd (load demo_loader ''app_config'' demo_state))) \<and>
   map fst (cache (run_loads other_loader [''c1'', ''c2'', ''c3'', ''c4'', ''c5'']
                     (snd (load demo_loader ''app_config'' demo_state)))) =
     [(1, ''c1''), (1, ''c2''), (1, ''c3''), (1, ''c4''), (1, ''c5'')] \<and>
   (0, ''app_config'') \<notin>
     fst ` set (cache (run_loads other_loader [''c1'', ''c2'', ''c3'', ''c4'', ''c5'']
                         (snd (load demo_loader ''app_config'' demo_state))))"
proof -
  let ?s1 = "snd (load demo_loader ''app_config'' demo_state)"
  let ?s2 = "run_loads other_loader [''c1'', ''c2'', ''c3'', ''c4'', ''c5''] ?s1"
  have l: "length (cache demo_state) \<le> 5" by (simp add: demo_state_def)
  have i: "ident demo_loader = 0" "ident other_loader = 1"
    by (simp_all add: demo_loader_def other_loader_def)
  have o: "ident other_loader \<noteq> ident demo_loader" by (simp add: i)
  have v: "valid_config_file demo_state demo_loader ''app_config''"
    by (intro demo_valid) (simp_all add: demo_state_def demo_loader_def)
  have vo: "valid_config_file demo_state other_loader n" if "n \<in> set demo_names" for n
    using that by (intro demo_valid) (simp_all add: demo_state_def other_loader_def)
  have v1: "valid_config_file demo_state other_loader ''c1''" by (rule vo) (simp add: demo_names_def)
  have v2: "valid_config_file demo_state other_loader ''c2''" by (rule vo) (simp add: demo_names_def)
  have v3: "valid_config_file demo_state other_loader ''c3''" by (rule vo) (simp add: demo_names_def)
  have v4: "valid_config_file demo_state other_loader ''c4''" by (rule vo) (simp add: demo_names_def)
  have v5: "valid_config_file demo_state other_loader ''c5''" by (rule vo) (simp add: demo_names_def)
  have vs: "\<forall>n \<in> set [''c1'', ''c2'', ''c3'', ''c4'', ''c5'']. valid_config_file demo_state other_loader n"
    using v1 v2 v3 v4 v5 by simp
  have d: "distinct [''c1'', ''c2'', ''c3'', ''c4'', ''c5'']" by simp
  from shared_cache_across_instances [OF l, of demo_loader "''app_config''" other_loader
      "''c1''" "''c2''" "''c3''" "''c4''" "''c5''"] o v d vs
  have r: "(ident demo_loader, ''app_config'') \<in> fst ` set (cache ?s1) \<and>
     map fst (cache ?s2) = map (Pair (ident other_loader)) [''c1'', ''c2'', ''c3'', ''c4'', ''c5''] \<and>
     (ident demo_loader, ''app_config'') \<notin> fst ` set (cache ?s2)"
    by blast
  then have r': "(0, ''app_config'') \<in> fst ` set (cache ?s1) \<and>
     map fst (cache ?s2) = [(1, ''c1''), (1, ''c2''), (1, ''c3''), (1, ''c4''), (1, ''c5'')] \<and>
     (0, ''app_config'') \<notin> fst ` set (cache ?s2)"
    unfolding i by (simp del: run_loads.simps)
  from l o v v1 v2 v3 v4 v5 r' show ?thesis by - (elim conjE, intro conjI, assumption+)
qed

text \<open>
  C3 as stated fails: an entry cached through one instance is evicted by five loads
  made through another instance.
\<close>

theorem other_instance_evicts:
  "(ident demo_loader, ''app_config'') \<in>
     fst ` set (cache (snd (load demo_loader ''app_config'' demo_state))) \<and>
   ident other_loader \<noteq> ident demo_loader \<and>
   (ident demo_loader, ''app_config'') \<notin>
     fst ` set (cache (run_loads other_loader [''c1'', ''c2'', ''c3'', ''c4'', ''c5'']
                        (snd (load demo_loader ''app_config'' demo_state))))"
proof -
  let ?s1 = "snd (load demo_loader ''app_config'' demo_state)"
  let ?s2 = "run_loads other_loader [''c1'', ''c2'', ''c3'', ''c4'', ''c5''] ?s1"
  have i: "ident demo_loader = 0" "ident other_loader = 1"
    by (simp_all add: demo_loader_def other_loader_def)
  have c1: "map fst (cache ?s1) = [(0, ''app_config'')]"
    by (simp add: demo_first_load)
  have v: "\<forall>name \<in> set [''c1'', ''c2'', ''c3'', ''c4'', ''c5'']. valid_config_file ?s1 other_loader name"
    using demo_after_first_valid by (simp add: demo_names_def)
  have "map fst (cache ?s2) =
          foldl (\<lambda>ks k. lru_keys k ks) [(0, ''app_config'')]
            (map (Pair 1) [''c1'', ''c2'', ''c3'', ''c4'', ''c5''])"
    using run_loads_keys [OF v] by (simp only: c1 i)
  also have "\<dots> = [(1, ''c1''), (1, ''c2''), (1, ''c3''), (1, ''c4''), (1, ''c5'')]"
    by (simp add: lru_keys_def)
  finally have c2: "map fst (cache ?s2) = [(1, ''c1''), (1, ''c2''), (1, ''c3''), (1, ''c4''), (1, ''c5'')]" .
  have "fst ` set (cache ?s2) = set (map fst (cache ?s2))" by simp
  also have "\<dots> = set [(1::nat, ''c1''), (1, ''c2''), (1, ''c3''), (1, ''c4''), (1, ''c5'')]"
    by (simp only: c2)
  finally have out: "(0, ''app_config'') \<notin> fst ` set (cache ?s2)" by simp
  have "fst ` set (cache ?s1) = set (map fst (cache ?s1))" by simp
  also have "\<dots> = {(0, ''app_config'')}" by (simp only: c1) simp
  finally have inn: "(0, ''app_config'') \<in> fst ` set (cache ?s1)" by simp
  from inn out i show ?thesis by (simp only:) simp
qed

end
